theory Spec2Isabelle
  imports Complex_Main "HOL-Library.Word"
begin

unbundle bit_operations_syntax

text \<open>
  A sealed-bid auction front end: bids are encrypted in the browser
  (\<^verbatim>\<open>arciumEncryption.js\<close>), validated (\<^verbatim>\<open>helpers.js\<close>), appended to the auction record
  by the \<^verbatim>\<open>BidSubmission\<close> form of an \<^verbatim>\<open>AuctionCard\<close>, and the winner is computed by
  \<^verbatim>\<open>WinnerReveal\<close>. The functions are embedded as HOL functions; a thrown exception or
  an alert is a value of a sum type; the effect of an event handler on the React state
  is a function from the state before to an outcome and the state after. The
  operations of a card are given twice: first with every handler running to its end
  before the next one starts, then with the two asynchronous handlers split at their
  first \<^verbatim>\<open>await\<close>, so that they can overlap.
\<close>

section \<open>JavaScript numbers\<close>

text \<open>
  A JavaScript number is an IEEE double. The auction code only compares numbers
  (\<^verbatim>\<open><\<close>, \<^verbatim>\<open><=\<close>, \<^verbatim>\<open>>\<close>) and tests \<^verbatim>\<open>isNaN\<close>; comparison of finite doubles is
  exact, so a finite number is modelled by the real it denotes. NaN and the two
  infinities are separate values. Every comparison with NaN is false.
\<close>

datatype js_number = NaN | NegInfinity | Finite real | PosInfinity

fun js_lt :: "js_number \<Rightarrow> js_number \<Rightarrow> bool" where
  "js_lt NaN _ = False"
| "js_lt _ NaN = False"
| "js_lt (Finite x) (Finite y) = (x < y)"
| "js_lt NegInfinity NegInfinity = False"
| "js_lt NegInfinity _ = True"
| "js_lt PosInfinity _ = False"
| "js_lt (Finite x) PosInfinity = True"
| "js_lt (Finite x) NegInfinity = False"

fun js_le :: "js_number \<Rightarrow> js_number \<Rightarrow> bool" where
  "js_le NaN _ = False"
| "js_le _ NaN = False"
| "js_le a b = (\<not> js_lt b a)"

definition js_gt :: "js_number \<Rightarrow> js_number \<Rightarrow> bool" where
  "js_gt a b = js_lt b a"

definition isNaN :: "js_number \<Rightarrow> bool" where
  "isNaN n = (n = NaN)"

text \<open>A value handed to a function: a number, or something whose \<^verbatim>\<open>typeof\<close> is not
  \<^verbatim>\<open>'number'\<close> (a string, \<^verbatim>\<open>undefined\<close>, an object).\<close>

datatype js_value = JSNumber js_number | JSNotNumber

section \<open>helpers.js: validateBid\<close>

datatype validation_error =
    MustBeValidNumber     \<comment> \<open>\<^verbatim>\<open>'Bid amount must be a valid number'\<close>\<close>
  | MustBeGreaterThanZero \<comment> \<open>\<^verbatim>\<open>'Bid amount must be greater than 0'\<close>\<close>
  | MustBeAtLeastMinimum  \<comment> \<open>\<^verbatim>\<open>'Bid must be at least ... SOL'\<close>\<close>

fun validateBid :: "js_value \<Rightarrow> js_number \<Rightarrow> validation_error + bool" where
  "validateBid JSNotNumber minimumBid = Inl MustBeValidNumber"
| "validateBid (JSNumber amount) minimumBid =
     (if isNaN amount then Inl MustBeValidNumber
      else if js_le amount (Finite 0) then Inl MustBeGreaterThanZero
      else if js_lt amount minimumBid then Inl MustBeAtLeastMinimum
      else Inr True)"


section \<open>arciumEncryption.js: key pairs and key exchange\<close>

text \<open>
  A \<^verbatim>\<open>Uint8Array\<close> is a list of bytes. Reading past its end gives \<^verbatim>\<open>undefined\<close>,
  which the bitwise operator \<^verbatim>\<open>^\<close> coerces to 0; \<open>u8_at\<close> is that read, used only
  for operands of \<^verbatim>\<open>^\<close>. The \<^verbatim>\<open>% 256\<close> applied to an XOR of bytes changes nothing,
  and the \<^verbatim>\<open>% 256\<close> of the public-key transform is the wrap-around of a stored byte.
\<close>

type_synonym u8 = "8 word"

definition u8_at :: "u8 list \<Rightarrow> nat \<Rightarrow> u8" where
  "u8_at xs i = (if i < length xs then xs ! i else 0)"

record keypair =
  privateKey :: "u8 list"
  publicKey :: "u8 list"

text \<open>\<open>rnd\<close> is what \<^verbatim>\<open>crypto.getRandomValues\<close> writes into the fresh 32-byte array.\<close>

definition generateX25519Keypair :: "(nat \<Rightarrow> u8) \<Rightarrow> keypair" where
  "generateX25519Keypair rnd =
     (let priv = map rnd [0..<32];
          pub = map (\<lambda>i. word_of_nat ((unat (priv ! i) * 9 + 121) mod 256)) [0..<32]
      in \<lparr>privateKey = priv, publicKey = pub\<rparr>)"

definition performKeyExchange :: "u8 list \<Rightarrow> u8 list \<Rightarrow> u8 list" where
  "performKeyExchange priv pub =
     map (\<lambda>i. u8_at priv i XOR u8_at pub i) [0..<32]"

section \<open>arciumEncryption.js: SimplifiedRescueCipher\<close>

text \<open>The \<^verbatim>\<open>while (num > 0n)\<close> loop of \<^verbatim>\<open>bigIntToBytes\<close>: least significant byte first.
  BigInt \<^verbatim>\<open>/\<close> and \<^verbatim>\<open>%\<close> truncate, which on a positive \<open>num\<close> is \<open>div\<close> and \<open>mod\<close>.\<close>

function bigIntToBytes_loop :: "int \<Rightarrow> u8 list \<Rightarrow> u8 list" where
  "bigIntToBytes_loop num bytes =
     (if num > 0 then bigIntToBytes_loop (num div 256) (bytes @ [word_of_int (num mod 256)])
      else bytes)"
  by pat_completeness auto
termination
  by (relation "measure (\<lambda>(num, bytes). nat num)") auto

definition bigIntToBytes :: "int \<Rightarrow> u8 list" where
  "bigIntToBytes v = rev (bigIntToBytes_loop v [])"

definition bytesToBigInt :: "u8 list \<Rightarrow> int" where
  "bytesToBigInt bytes = foldl (\<lambda>result b. push_bit 8 result + uint b) 0 bytes"

text \<open>The plaintext handed to \<^verbatim>\<open>encrypt\<close>: a BigInt, or a number that \<^verbatim>\<open>BigInt(...)\<close>
  converts. \<^verbatim>\<open>BigInt\<close> throws a RangeError on a number that is not an integer.\<close>

datatype plaintext = BigIntValue int | NumberValue js_number

datatype js_error = RangeError

fun toBigInt :: "plaintext \<Rightarrow> js_error + int" where
  "toBigInt (BigIntValue v) = Inr v"
| "toBigInt (NumberValue (Finite r)) = (if of_int \<lfloor>r\<rfloor> = r then Inr \<lfloor>r\<rfloor> else Inl RangeError)"
| "toBigInt (NumberValue _) = Inl RangeError"

text \<open>The cipher object holds \<open>key\<close> (the shared secret); it is the first argument here.\<close>

definition encrypt :: "u8 list \<Rightarrow> plaintext \<Rightarrow> u8 list \<Rightarrow> js_error + u8 list" where
  "encrypt key plaintext nonce =
     (case toBigInt plaintext of
        Inl e \<Rightarrow> Inl e
      | Inr v \<Rightarrow>
          (let valueBytes = bigIntToBytes v
           in Inr (map (\<lambda>i. (if i < length valueBytes then valueBytes ! i else 0)
                             XOR u8_at key i XOR u8_at nonce (i mod length nonce))
                       [0..<32])))"

definition decrypt :: "u8 list \<Rightarrow> u8 list \<Rightarrow> u8 list \<Rightarrow> int" where
  "decrypt key ciphertext nonce =
     bytesToBigInt
       (map (\<lambda>i. u8_at ciphertext i XOR u8_at key i XOR u8_at nonce (i mod length nonce))
            [0..<32])"

text \<open>\<^verbatim>\<open>getMXEPublicKey\<close>: the mock cluster key, used when \<^verbatim>\<open>encryptBid\<close> is given none.\<close>

definition getMXEPublicKey :: "u8 list" where
  "getMXEPublicKey = map (\<lambda>i. word_of_nat ((i * 7 + 42) mod 256)) [0..<32]"

text \<open>The object \<^verbatim>\<open>encryptBid\<close> returns (its \<^verbatim>\<open>metadata\<close> is never read).\<close>

record encrypted_bid =
  enc_ciphertext :: "u8 list"
  enc_publicKey :: "u8 list"
  enc_nonce :: "u8 list"

text \<open>\<open>keyRnd\<close> and \<open>nonceRnd\<close> are the two draws of \<^verbatim>\<open>crypto.getRandomValues\<close>.\<close>

definition encryptBid ::
  "plaintext \<Rightarrow> u8 list option \<Rightarrow> (nat \<Rightarrow> u8) \<Rightarrow> (nat \<Rightarrow> u8) \<Rightarrow> js_error + encrypted_bid" where
  "encryptBid bidAmount mxePublicKey keyRnd nonceRnd =
     (let mxe = (case mxePublicKey of None \<Rightarrow> getMXEPublicKey | Some k \<Rightarrow> k);
          kp = generateX25519Keypair keyRnd;
          sharedSecret = performKeyExchange (privateKey kp) mxe;
          nonce = map nonceRnd [0..<16]
      in case encrypt sharedSecret bidAmount nonce of
           Inl e \<Rightarrow> Inl e
         | Inr ct \<Rightarrow> Inr \<lparr>enc_ciphertext = ct, enc_publicKey = publicKey kp, enc_nonce = nonce\<rparr>)"

definition decryptResult :: "u8 list \<Rightarrow> u8 list \<Rightarrow> u8 list \<Rightarrow> u8 list \<Rightarrow> int" where
  "decryptResult ct nonce mxePublicKey userPrivateKey =
     decrypt (performKeyExchange userPrivateKey mxePublicKey) ct nonce"

section \<open>The auction record and its bids\<close>

text \<open>The objects built by \<^verbatim>\<open>BidSubmission.handleSubmit\<close> and
  \<^verbatim>\<open>AuctionCreator.handleSubmit\<close>. A key an object does not have (\<^verbatim>\<open>winner\<close>,
  \<^verbatim>\<open>winningBid\<close> before finalization) is \<open>None\<close>. The status strings \<^verbatim>\<open>'active'\<close>
  and \<^verbatim>\<open>'finalized'\<close> are the two constructors of \<open>auction_status\<close>.\<close>

datatype auction_status = Active | Finalized

record bid =
  bid_id :: string
  bidder :: string
  amount :: js_number
  bid_ciphertext :: "u8 list"
  bid_publicKey :: "u8 list"
  bid_nonce :: "u8 list"
  timestamp :: int

record auction =
  auction_id :: string
  creator :: string
  itemName :: string
  description :: string
  minimumBid :: js_number
  endTime :: int
  bids :: "bid list"
  status :: auction_status
  createdAt :: int
  winner :: "string option"
  winningBid :: "js_number option"

text \<open>The object literal \<^verbatim>\<open>newAuction\<close> of \<^verbatim>\<open>AuctionCreator.handleSubmit\<close>; \<open>uuid\<close> is
  \<^verbatim>\<open>crypto.randomUUID()\<close>, \<open>now\<close> is \<^verbatim>\<open>Date.now()\<close>. The form validation that precedes it
  only restricts the arguments.\<close>

definition newAuction ::
  "string \<Rightarrow> string \<Rightarrow> string \<Rightarrow> string \<Rightarrow> js_number \<Rightarrow> int \<Rightarrow> int \<Rightarrow> auction" where
  "newAuction uuid walletKey name descr minBid endT now =
     \<lparr>auction_id = uuid, creator = walletKey, itemName = name, description = descr,
      minimumBid = minBid, endTime = endT, bids = [], status = Active, createdAt = now,
      winner = None, winningBid = None\<rparr>"

section \<open>BidSubmission.handleSubmit\<close>

text \<open>What one submission of the bid form reads from its surroundings.
  \<open>lamports\<close> is the double \<^verbatim>\<open>Math.floor(amount * 1e9)\<close>: the product is rounded
  floating-point arithmetic and is taken as given; \<^verbatim>\<open>BigInt\<close> of it is modelled.\<close>

record submit_input =
  connected :: bool
  bidderKey :: string
  bidAmount :: js_number
  lamports :: js_number
  keyRandom :: "nat \<Rightarrow> u8"
  nonceRandom :: "nat \<Rightarrow> u8"
  bidUuid :: string
  submittedAt :: int

datatype outcome =
    Done
  | NotRendered            \<comment> \<open>the button or form is not on the page\<close>
  | PleaseConnectWallet
  | ValidationFailed validation_error
  | Thrown js_error
  | NoBidsAlert            \<comment> \<open>\<^verbatim>\<open>alert('No bids submitted for this auction')\<close>\<close>

definition handleSubmit :: "submit_input \<Rightarrow> auction \<Rightarrow> outcome + bid" where
  "handleSubmit inp a =
     (if \<not> connected inp then Inl PleaseConnectWallet
      else case validateBid (JSNumber (bidAmount inp)) (minimumBid a) of
        Inl e \<Rightarrow> Inl (ValidationFailed e)
      | Inr _ \<Rightarrow>
         (case toBigInt (NumberValue (lamports inp)) of
            Inl e \<Rightarrow> Inl (Thrown e)
          | Inr v \<Rightarrow>
             (case encryptBid (BigIntValue v) None (keyRandom inp) (nonceRandom inp) of
                Inl e \<Rightarrow> Inl (Thrown e)
              | Inr encrypted \<Rightarrow>
                  Inr \<lparr>bid_id = bidUuid inp, bidder = bidderKey inp, amount = bidAmount inp,
                       bid_ciphertext = enc_ciphertext encrypted,
                       bid_publicKey = enc_publicKey encrypted,
                       bid_nonce = enc_nonce encrypted,
                       timestamp = submittedAt inp\<rparr>)))"

section \<open>WinnerReveal.handleFinalize\<close>

text \<open>The callback of \<^verbatim>\<open>auction.bids.forEach\<close>, on the pair of \<^verbatim>\<open>maxBid\<close> and
  \<^verbatim>\<open>winnerAddress\<close>.\<close>

definition finalize_step :: "js_number \<times> string \<Rightarrow> bid \<Rightarrow> js_number \<times> string" where
  "finalize_step acc b =
     (case acc of (maxBid, winnerAddress) \<Rightarrow>
        if js_gt (amount b) maxBid then (amount b, bidder b) else (maxBid, winnerAddress))"

text \<open>The result is the pair handed to \<^verbatim>\<open>onFinalized(winnerAddress, maxBid)\<close>.\<close>

definition handleFinalize :: "auction \<Rightarrow> outcome + (string \<times> js_number)" where
  "handleFinalize a =
     (if length (bids a) = 0 then Inl NoBidsAlert
      else case foldl finalize_step (Finite 0, '''') (bids a) of
             (maxBid, winnerAddress) \<Rightarrow> Inr (winnerAddress, maxBid))"

section \<open>AuctionCard: the operations on one auction\<close>

text \<open>
  An \<^verbatim>\<open>AuctionCard\<close> shows one auction and holds the flag \<^verbatim>\<open>showBidForm\<close>.
  \<^verbatim>\<open>onUpdateAuction(auction.id, updates)\<close> merges \<open>updates\<close> into this auction's record.
  A handler can run only while its button or form is rendered; the render conditions
  are the guards below. The time given to \<open>clickSubmitEncryptedBid\<close> and \<open>settle\<close> is
  the value of \<^verbatim>\<open>Date.now()\<close> in the render that put the button on the page.
\<close>

record card =
  card_auction :: auction
  showBidForm :: bool

definition mountCard :: "auction \<Rightarrow> card" where
  "mountCard a = \<lparr>card_auction = a, showBidForm = False\<rparr>"

definition isEnded :: "int \<Rightarrow> auction \<Rightarrow> bool" where
  "isEnded now a = (now \<ge> endTime a)"

definition isFinalized :: "auction \<Rightarrow> bool" where
  "isFinalized a = (status a = Finalized)"

definition handleBidSubmitted :: "card \<Rightarrow> bid \<Rightarrow> card" where
  "handleBidSubmitted c encryptedBid =
     c\<lparr>card_auction := (card_auction c)\<lparr>bids := bids (card_auction c) @ [encryptedBid]\<rparr>,
       showBidForm := False\<rparr>"

definition handleFinalized :: "card \<Rightarrow> string \<Rightarrow> js_number \<Rightarrow> card" where
  "handleFinalized c w wb =
     c\<lparr>card_auction := (card_auction c)\<lparr>status := Finalized, winner := Some w,
                                         winningBid := Some wb\<rparr>\<rparr>"

text \<open>The button ``Submit Encrypted Bid'', rendered when \<^verbatim>\<open>!isEnded && !showBidForm\<close>.\<close>

definition clickSubmitEncryptedBid :: "int \<Rightarrow> card \<Rightarrow> outcome \<times> card" where
  "clickSubmitEncryptedBid now c =
     (if \<not> isEnded now (card_auction c) \<and> \<not> showBidForm c
      then (Done, c\<lparr>showBidForm := True\<rparr>) else (NotRendered, c))"

text \<open>The form's ``Cancel'' button; the form is rendered when \<^verbatim>\<open>showBidForm\<close>.\<close>

definition clickCancel :: "card \<Rightarrow> outcome \<times> card" where
  "clickCancel c = (if showBidForm c then (Done, c\<lparr>showBidForm := False\<rparr>) else (NotRendered, c))"

text \<open>Submitting the bid form: \<^verbatim>\<open>handleSubmit\<close>, then \<^verbatim>\<open>handleBidSubmitted\<close>.\<close>

definition submitBid :: "submit_input \<Rightarrow> card \<Rightarrow> outcome \<times> card" where
  "submitBid inp c =
     (if \<not> showBidForm c then (NotRendered, c)
      else case handleSubmit inp (card_auction c) of
             Inl e \<Rightarrow> (e, c)
           | Inr encryptedBid \<Rightarrow> (Done, handleBidSubmitted c encryptedBid))"

text \<open>The button ``Trigger MPC Finalization'' of \<^verbatim>\<open>WinnerReveal\<close>, rendered when
  \<^verbatim>\<open>isEnded && !isFinalized\<close>: \<^verbatim>\<open>handleFinalize\<close>, then \<^verbatim>\<open>handleFinalized\<close>.\<close>

definition settle :: "int \<Rightarrow> card \<Rightarrow> outcome \<times> card" where
  "settle now c =
     (if isEnded now (card_auction c) \<and> \<not> isFinalized (card_auction c)
      then case handleFinalize (card_auction c) of
             Inl e \<Rightarrow> (e, c)
           | Inr (w, wb) \<Rightarrow> (Done, handleFinalized c w wb)
      else (NotRendered, c))"

datatype event =
    ClickSubmitEncryptedBid int
  | ClickCancel
  | SubmitBid submit_input
  | Settle int

fun perform :: "event \<Rightarrow> card \<Rightarrow> outcome \<times> card" where
  "perform (ClickSubmitEncryptedBid now) c = clickSubmitEncryptedBid now c"
| "perform ClickCancel c = clickCancel c"
| "perform (SubmitBid inp) c = submitBid inp c"
| "perform (Settle now) c = settle now c"

text \<open>A sequence of operations in which each handler ends before the next one starts.\<close>

definition run :: "event list \<Rightarrow> card \<Rightarrow> card" where
  "run evs c = foldl (\<lambda>c ev. snd (perform ev c)) c evs"

section \<open>A worked auction\<close>

text \<open>One auction with a minimum bid of 0.5 SOL that ends at time 1000, and three
  submissions of the bid form: 1 SOL at time 200, 0.5 SOL at time 400, 2 SOL at time 2000.\<close>

definition demo_auction :: auction where
  "demo_auction =
     newAuction ''auction-1'' ''creator'' ''Painting'' ''An oil painting'' (Finite 0.5) 1000 0"

definition alice_submits :: submit_input where
  "alice_submits =
     \<lparr>connected = True, bidderKey = ''alice'', bidAmount = Finite 1,
      lamports = Finite 1000000000, keyRandom = (\<lambda>i. 3), nonceRandom = (\<lambda>i. 5),
      bidUuid = ''bid-1'', submittedAt = 200\<rparr>"

definition bob_submits :: submit_input where
  "bob_submits =
     \<lparr>connected = True, bidderKey = ''bob'', bidAmount = Finite 0.5,
      lamports = Finite 500000000, keyRandom = (\<lambda>i. 7), nonceRandom = (\<lambda>i. 11),
      bidUuid = ''bid-2'', submittedAt = 400\<rparr>"

definition carol_submits_late :: submit_input where
  "carol_submits_late =
     \<lparr>connected = True, bidderKey = ''carol'', bidAmount = Finite 2,
      lamports = Finite 2000000000, keyRandom = (\<lambda>i. 13), nonceRandom = (\<lambda>i. 17),
      bidUuid = ''bid-3'', submittedAt = 2000\<rparr>"

text \<open>The state of the card after both bids, before and after
  ``Trigger MPC Finalization'' is clicked at time 1500.\<close>

definition two_bids_card :: card where
  "two_bids_card =
     run [ClickSubmitEncryptedBid 100, SubmitBid alice_submits,
          ClickSubmitEncryptedBid 300, SubmitBid bob_submits] (mountCard demo_auction)"

definition finalized_card :: card where
  "finalized_card = snd (settle 1500 two_bids_card)"

section \<open>Overlapping handlers\<close>

text \<open>
  \<^verbatim>\<open>BidSubmission.handleSubmit\<close> and \<^verbatim>\<open>WinnerReveal.handleFinalize\<close> are \<^verbatim>\<open>async\<close>: each waits
  on timers between its first statement and its call of \<^verbatim>\<open>onBidSubmitted\<close> or
  \<^verbatim>\<open>onFinalized\<close>, and other handlers run meanwhile. A handler keeps the \<^verbatim>\<open>auction\<close>
  prop of the render in which it was clicked, and the \<^verbatim>\<open>handleBidSubmitted\<close>,
  \<^verbatim>\<open>handleFinalized\<close> and \<^verbatim>\<open>App.handleUpdateAuction\<close> closures of that same render; the
  last one merges the update into the \<^verbatim>\<open>auctions\<close> it captured. So when the handler
  ends, the record becomes the captured record with the update applied, whatever was
  written in between.

  The submit button is disabled while its handler runs (\<^verbatim>\<open>isEncrypting\<close>), and so is
  ``Cancel''; the finalization button is replaced by a progress bar (\<^verbatim>\<open>isFinalizing\<close>).
  At most one handler of each kind is therefore in flight.
\<close>

record app_state =
  shown :: card
  pendingSubmit :: "(submit_input \<times> auction) option"
  pendingFinalize :: "auction option"

definition mountApp :: "card \<Rightarrow> app_state" where
  "mountApp c = \<lparr>shown = c, pendingSubmit = None, pendingFinalize = None\<rparr>"

text \<open>What a step of a handler reports: it is still running, or it ended.\<close>

datatype step_result = Running | Finished outcome

text \<open>The part of \<^verbatim>\<open>handleSubmit\<close> before its first \<^verbatim>\<open>await\<close>.\<close>

definition startSubmit :: "submit_input \<Rightarrow> app_state \<Rightarrow> step_result \<times> app_state" where
  "startSubmit inp s =
     (case pendingSubmit s of
        Some p \<Rightarrow> (Finished NotRendered, s)
      | None \<Rightarrow>
          if \<not> showBidForm (shown s) then (Finished NotRendered, s)
          else if \<not> connected inp then (Finished PleaseConnectWallet, s)
          else case validateBid (JSNumber (bidAmount inp)) (minimumBid (card_auction (shown s))) of
                 Inl e \<Rightarrow> (Finished (ValidationFailed e), s)
               | Inr ok \<Rightarrow> (Running, s\<lparr>pendingSubmit := Some (inp, card_auction (shown s))\<rparr>))"

text \<open>The rest of \<^verbatim>\<open>handleSubmit\<close>, then \<^verbatim>\<open>handleBidSubmitted\<close>, both on the captured
  record; \<^verbatim>\<open>setShowBidForm(false)\<close> acts on the card as it is now.\<close>

definition finishSubmit :: "app_state \<Rightarrow> step_result \<times> app_state" where
  "finishSubmit s =
     (case pendingSubmit s of
        None \<Rightarrow> (Finished NotRendered, s)
      | Some (inp, captured) \<Rightarrow>
          (case handleSubmit inp captured of
             Inl e \<Rightarrow> (Finished e, s\<lparr>pendingSubmit := None\<rparr>)
           | Inr encryptedBid \<Rightarrow>
               (Finished Done,
                s\<lparr>shown := handleBidSubmitted ((shown s)\<lparr>card_auction := captured\<rparr>) encryptedBid,
                  pendingSubmit := None\<rparr>)))"

text \<open>The part of \<^verbatim>\<open>handleFinalize\<close> before its first \<^verbatim>\<open>await\<close>, behind the render
  condition of the button.\<close>

definition startFinalize :: "int \<Rightarrow> app_state \<Rightarrow> step_result \<times> app_state" where
  "startFinalize now s =
     (case pendingFinalize s of
        Some a \<Rightarrow> (Finished NotRendered, s)
      | None \<Rightarrow>
          if isEnded now (card_auction (shown s)) \<and> \<not> isFinalized (card_auction (shown s))
          then (if length (bids (card_auction (shown s))) = 0 then (Finished NoBidsAlert, s)
                else (Running, s\<lparr>pendingFinalize := Some (card_auction (shown s))\<rparr>))
          else (Finished NotRendered, s))"

text \<open>The rest of \<^verbatim>\<open>handleFinalize\<close>, then \<^verbatim>\<open>handleFinalized\<close>, both on the captured
  record.\<close>

definition finishFinalize :: "app_state \<Rightarrow> step_result \<times> app_state" where
  "finishFinalize s =
     (case pendingFinalize s of
        None \<Rightarrow> (Finished NotRendered, s)
      | Some captured \<Rightarrow>
          (case handleFinalize captured of
             Inl e \<Rightarrow> (Finished e, s\<lparr>pendingFinalize := None\<rparr>)
           | Inr (w, wb) \<Rightarrow>
               (Finished Done,
                s\<lparr>shown := handleFinalized ((shown s)\<lparr>card_auction := captured\<rparr>) w wb,
                  pendingFinalize := None\<rparr>)))"

definition openBidForm :: "int \<Rightarrow> app_state \<Rightarrow> step_result \<times> app_state" where
  "openBidForm now s =
     (case clickSubmitEncryptedBid now (shown s) of (r, c) \<Rightarrow> (Finished r, s\<lparr>shown := c\<rparr>))"

definition cancelBidForm :: "app_state \<Rightarrow> step_result \<times> app_state" where
  "cancelBidForm s =
     (case pendingSubmit s of
        Some p \<Rightarrow> (Finished NotRendered, s)
      | None \<Rightarrow> (case clickCancel (shown s) of (r, c) \<Rightarrow> (Finished r, s\<lparr>shown := c\<rparr>)))"

datatype async_event =
    OpenBidForm int
  | CancelBidForm
  | StartSubmit submit_input
  | FinishSubmit
  | StartFinalize int
  | FinishFinalize

fun perform_async :: "async_event \<Rightarrow> app_state \<Rightarrow> step_result \<times> app_state" where
  "perform_async (OpenBidForm now) s = openBidForm now s"
| "perform_async CancelBidForm s = cancelBidForm s"
| "perform_async (StartSubmit inp) s = startSubmit inp s"
| "perform_async FinishSubmit s = finishSubmit s"
| "perform_async (StartFinalize now) s = startFinalize now s"
| "perform_async FinishFinalize s = finishFinalize s"

text \<open>A sequence of steps, with what each step reported.\<close>

fun run_async :: "async_event list \<Rightarrow> app_state \<Rightarrow> step_result list \<times> app_state" where
  "run_async [] s = ([], s)"
| "run_async (ev # evs) s =
     (case perform_async ev s of (r, s') \<Rightarrow>
        (case run_async evs s' of (rs, s'') \<Rightarrow> (r # rs, s'')))"

section \<open>A bid that overlaps the finalization\<close>

text \<open>
  In the worked auction the bid form is opened again at time 900, before the end at
  1000. Finalization is clicked at 1500 and ends at 7000. The open form is submitted
  at 5500 with 2 SOL and its handler ends at 7900. Finalization is clicked again at
  9000.
\<close>

definition carol_submits_overlapping :: submit_input where
  "carol_submits_overlapping =
     \<lparr>connected = True, bidderKey = ''carol'', bidAmount = Finite 2,
      lamports = Finite 2000000000, keyRandom = (\<lambda>i. 13), nonceRandom = (\<lambda>i. 17),
      bidUuid = ''bid-3'', submittedAt = 7900\<rparr>"

definition first_settlement :: "step_result list \<times> app_state" where
  "first_settlement =
     run_async [OpenBidForm 900, StartFinalize 1500, StartSubmit carol_submits_overlapping,
                FinishFinalize]
       (mountApp two_bids_card)"

definition second_settlement :: "step_result list \<times> app_state" where
  "second_settlement =
     run_async [FinishSubmit, StartFinalize 9000, FinishFinalize] (snd first_settlement)"

section \<open>Invariants of the operations\<close>

text \<open>Every stored bid passed \<^verbatim>\<open>validateBid\<close> against the auction's minimum bid.\<close>

definition bids_validated :: "card \<Rightarrow> bool" where
  "bids_validated c \<longleftrightarrow>
     (\<forall>b\<in>set (bids (card_auction c)).
        validateBid (JSNumber (amount b)) (minimumBid (card_auction c)) = Inr True)"

text \<open>The record has a winner exactly when its status is \<^verbatim>\<open>'finalized'\<close>.\<close>

definition winner_iff :: "card \<Rightarrow> bool" where
  "winner_iff c \<longleftrightarrow> (winner (card_auction c) \<noteq> None \<longleftrightarrow> status (card_auction c) = Finalized)"


text \<open>Both facts hold of the record on the page and of every record a running handler
  has captured.\<close>

definition async_invariant :: "app_state \<Rightarrow> bool" where
  "async_invariant s \<longleftrightarrow>
     winner_iff (shown s) \<and> bids_validated (shown s)
     \<and> (\<forall>inp a. pendingSubmit s = Some (inp, a) \<longrightarrow>
           winner_iff (mountCard a) \<and> bids_validated (mountCard a))
     \<and> (\<forall>a. pendingFinalize s = Some a \<longrightarrow>
           winner_iff (mountCard a) \<and> bids_validated (mountCard a))"

section \<open>Byte encodings\<close>

declare bigIntToBytes_loop.simps [simp del]

lemma bigIntToBytes_loop_acc:
  "bigIntToBytes_loop num bytes = bytes @ bigIntToBytes_loop num []"
proof (induction "nat num" arbitrary: num bytes rule: less_induct)
  case less
  show ?case
  proof (cases "num > 0")
    case True
    let ?d = "word_of_int (num mod 256) :: u8"
    have lt: "nat (num div 256) < nat num" using True by auto
    have "bigIntToBytes_loop num bytes = bigIntToBytes_loop (num div 256) (bytes @ [?d])"
      using True by (subst bigIntToBytes_loop.simps) simp
    also have "\<dots> = (bytes @ [?d]) @ bigIntToBytes_loop (num div 256) []"
      by (rule less [OF lt])
    finally have left: "bigIntToBytes_loop num bytes = bytes @ [?d] @ bigIntToBytes_loop (num div 256) []"
      by simp
    have "bigIntToBytes_loop num [] = bigIntToBytes_loop (num div 256) ([] @ [?d])"
      using True by (subst bigIntToBytes_loop.simps) simp
    also have "\<dots> = ([] @ [?d]) @ bigIntToBytes_loop (num div 256) []"
      by (rule less [OF lt])
    finally show ?thesis using left by simp
  next
    case False
    then show ?thesis by (simp add: bigIntToBytes_loop.simps)
  qed
qed

lemma bigIntToBytes_nonpos: "v \<le> 0 \<Longrightarrow> bigIntToBytes v = []"
  by (simp add: bigIntToBytes_def bigIntToBytes_loop.simps)

lemma bigIntToBytes_pos:
  "v > 0 \<Longrightarrow> bigIntToBytes v = bigIntToBytes (v div 256) @ [word_of_int (v mod 256)]"
proof -
  assume pos: "v > 0"
  have "bigIntToBytes_loop v [] = bigIntToBytes_loop (v div 256) [word_of_int (v mod 256)]"
    using pos by (subst bigIntToBytes_loop.simps) simp
  also have "\<dots> = [word_of_int (v mod 256)] @ bigIntToBytes_loop (v div 256) []"
    by (rule bigIntToBytes_loop_acc)
  finally show ?thesis by (simp add: bigIntToBytes_def)
qed

lemma bytesToBigInt_snoc: "bytesToBigInt (xs @ [b]) = bytesToBigInt xs * 256 + uint b"
  by (simp add: bytesToBigInt_def push_bit_eq_mult)

lemma bytesToBigInt_Nil: "bytesToBigInt [] = 0"
  by (simp add: bytesToBigInt_def)

lemma bytesToBigInt_bigIntToBytes: "0 \<le> v \<Longrightarrow> bytesToBigInt (bigIntToBytes v) = v"
proof (induction "nat v" arbitrary: v rule: less_induct)
  case less
  show ?case
  proof (cases "v > 0")
    case True
    have lt: "nat (v div 256) < nat v" using True by auto
    have ih: "bytesToBigInt (bigIntToBytes (v div 256)) = v div 256"
      using less(1) [OF lt] True by simp
    have "uint (word_of_int (v mod 256) :: u8) = v mod 256"
      by (simp add: uint_word_of_int)
    then show ?thesis
      using True ih by (simp add: bigIntToBytes_pos bytesToBigInt_snoc)
  next
    case False
    with less(2) have "v = 0" by simp
    then show ?thesis by (simp add: bigIntToBytes_nonpos bytesToBigInt_Nil)
  qed
qed

lemma bytesToBigInt_pad: "bytesToBigInt (xs @ replicate k 0) = bytesToBigInt xs * 256 ^ k"
proof (induction k)
  case 0
  then show ?case by simp
next
  case (Suc k)
  have "xs @ replicate (Suc k) 0 = (xs @ replicate k 0) @ [0]"
    by (simp add: replicate_append_same)
  then show ?case using Suc by (simp only: bytesToBigInt_snoc) simp
qed

lemma length_bigIntToBytes_le: "0 \<le> v \<Longrightarrow> length (bigIntToBytes v) \<le> n \<longleftrightarrow> v < 256 ^ n"
proof (induction n arbitrary: v)
  case 0
  then show ?case by (cases "v > 0") (auto simp: bigIntToBytes_pos bigIntToBytes_nonpos)
next
  case (Suc n)
  show ?case
  proof (cases "v > 0")
    case True
    have "length (bigIntToBytes v) \<le> Suc n \<longleftrightarrow> length (bigIntToBytes (v div 256)) \<le> n"
      using True by (simp add: bigIntToBytes_pos)
    also have "\<dots> \<longleftrightarrow> v div 256 < 256 ^ n"
      using True by (intro Suc.IH) simp
    also have "\<dots> \<longleftrightarrow> v < 256 ^ Suc n"
      by (simp add: div_less_iff_less_mult mult.commute) linarith
    finally show ?thesis .
  next
    case False
    with Suc.prems have "v = 0" by simp
    then show ?thesis by (simp add: bigIntToBytes_nonpos)
  qed
qed

lemma padded_bytes:
  "map (\<lambda>i. if i < length L then L ! i else (0::u8)) [0..<n] = take n L @ replicate (n - length L) 0"
  by (rule nth_equalityI) (auto simp: nth_append)

lemma take_bigIntToBytes:
  "k \<le> length (bigIntToBytes v) \<Longrightarrow>
   take (length (bigIntToBytes v) - k) (bigIntToBytes v) = bigIntToBytes (v div 256 ^ k)"
proof (induction k arbitrary: v)
  case 0
  then show ?case by simp
next
  case (Suc k)
  then have pos: "v > 0" by (cases "v > 0") (auto simp: bigIntToBytes_nonpos)
  have len: "k \<le> length (bigIntToBytes (v div 256))"
    using Suc.prems pos by (simp add: bigIntToBytes_pos)
  have "take (length (bigIntToBytes v) - Suc k) (bigIntToBytes v)
        = take (length (bigIntToBytes (v div 256)) - k) (bigIntToBytes (v div 256))"
    using pos by (simp add: bigIntToBytes_pos)
  also have "\<dots> = bigIntToBytes (v div 256 div 256 ^ k)"
    by (rule Suc.IH [OF len])
  also have "v div 256 div 256 ^ k = v div 256 ^ Suc k"
    by (simp add: zdiv_zmult2_eq)
  finally show ?case .
qed


lemma u8_at_map_upt: "i < n \<Longrightarrow> u8_at (map f [0..<n]) i = f i"
  by (simp add: u8_at_def)

lemma xor_cancel3: "((p::u8) XOR k XOR n) XOR k XOR n = p"
  by (simp add: ac_simps)

lemma decrypt_encrypt_bytes:
  assumes "encrypt key (BigIntValue v) nonce = Inr ct"
  shows "decrypt key ct nonce =
         bytesToBigInt (take 32 (bigIntToBytes v) @ replicate (32 - length (bigIntToBytes v)) 0)"
proof -
  let ?L = "bigIntToBytes v"
  let ?p = "\<lambda>i. if i < length ?L then ?L ! i else (0::u8)"
  let ?g = "\<lambda>i. ?p i XOR u8_at key i XOR u8_at nonce (i mod length nonce)"
  have ct: "ct = map ?g [0..<32]"
    using assms by (simp add: encrypt_def Let_def)
  have "map (\<lambda>i. u8_at ct i XOR u8_at key i XOR u8_at nonce (i mod length nonce)) [0..<32]
        = map ?p [0..<32]"
  proof (rule map_cong [OF refl])
    fix i assume "i \<in> set [0..<32]"
    then have i: "i < 32" by simp
    have "u8_at ct i = ?g i" unfolding ct by (rule u8_at_map_upt [OF i])
    then show "u8_at ct i XOR u8_at key i XOR u8_at nonce (i mod length nonce) = ?p i"
      by (simp only: xor_cancel3)
  qed
  then show ?thesis
    by (simp only: decrypt_def padded_bytes)
qed

lemma decrypt_encrypt_value:
  assumes "0 \<le> v" and "v < 2 ^ 256" and "encrypt key (BigIntValue v) nonce = Inr ct"
  shows "decrypt key ct nonce = v * 256 ^ (32 - length (bigIntToBytes v))"
proof -
  have "v < (256::int) ^ 32" using assms(2) by simp
  then have len: "length (bigIntToBytes v) \<le> 32"
    using assms(1) by (simp add: length_bigIntToBytes_le)
  then have "take 32 (bigIntToBytes v) = bigIntToBytes v" by simp
  then show ?thesis
    using assms(1) decrypt_encrypt_bytes [OF assms(3)]
    by (simp add: bytesToBigInt_pad bytesToBigInt_bigIntToBytes)
qed

lemma encrypt_total: "\<exists>ct. encrypt key (BigIntValue v) nonce = Inr ct \<and> length ct = 32"
  by (simp add: encrypt_def Let_def)

lemma encrypt_truncates:
  assumes "2 ^ 256 \<le> v"
  shows "encrypt key (BigIntValue v) nonce =
         encrypt key (BigIntValue (v div 256 ^ (length (bigIntToBytes v) - 32))) nonce"
proof -
  let ?L = "bigIntToBytes v"
  let ?w = "v div 256 ^ (length ?L - 32)"
  have v0: "0 \<le> v" using assms by (rule order_trans [rotated]) simp
  have "\<not> v < (256::int) ^ 32" using assms by simp
  then have len: "32 < length ?L"
    using length_bigIntToBytes_le [OF v0, of 32] by simp
  have "take (length ?L - (length ?L - 32)) ?L = bigIntToBytes ?w"
    by (rule take_bigIntToBytes) simp
  then have tk: "take 32 ?L = bigIntToBytes ?w" using len by simp
  then have lw: "length (bigIntToBytes ?w) = 32" using len by (metis length_take min.absorb2 less_imp_le)
  have a: "map (\<lambda>i. if i < length ?L then ?L ! i else (0::u8)) [0..<32] = bigIntToBytes ?w"
    unfolding padded_bytes using len tk by simp
  have b: "map (\<lambda>i. if i < length (bigIntToBytes ?w) then bigIntToBytes ?w ! i else (0::u8)) [0..<32]
           = bigIntToBytes ?w"
    unfolding padded_bytes using lw by simp
  have "map (\<lambda>i. if i < length ?L then ?L ! i else (0::u8)) [0..<32]
        = map (\<lambda>i. if i < length (bigIntToBytes ?w) then bigIntToBytes ?w ! i else 0) [0..<32]"
    by (simp only: a b)
  then have "map (\<lambda>i. (if i < length ?L then ?L ! i else (0::u8)) XOR u8_at key i XOR u8_at nonce (i mod length nonce)) [0..<32]
        = map (\<lambda>i. (if i < length (bigIntToBytes ?w) then bigIntToBytes ?w ! i else 0) XOR u8_at key i XOR u8_at nonce (i mod length nonce)) [0..<32]"
    by (simp only: list_eq_iff_nth_eq length_map nth_map) simp
  then show ?thesis
    by (simp add: encrypt_def Let_def)
qed

section \<open>Comparison of JavaScript numbers\<close>

lemma js_lt_irrefl: "\<not> js_lt a a"
  by (cases a) simp_all

lemma js_lt_trans: "js_lt a b \<Longrightarrow> js_lt b c \<Longrightarrow> js_lt a c"
  by (cases a; cases b; cases c) simp_all

lemma js_lt_total: "a \<noteq> NaN \<Longrightarrow> b \<noteq> NaN \<Longrightarrow> js_lt a b \<or> a = b \<or> js_lt b a"
  by (cases a; cases b) auto

lemma js_lt_not_NaN: "js_lt a b \<Longrightarrow> a \<noteq> NaN \<and> b \<noteq> NaN"
  by (cases a; cases b) simp_all

lemma validateBid_positive:
  "validateBid (JSNumber n) m = Inr True \<Longrightarrow> js_lt (Finite 0) n"
  by (cases n) (simp_all add: isNaN_def split: if_splits)

lemma foldl_finalize_step:
  assumes "\<forall>b\<in>set xs. js_lt (Finite 0) (amount b)" and "xs \<noteq> []"
  shows "\<exists>i<length xs.
           foldl finalize_step (Finite 0, '''') xs = (amount (xs ! i), bidder (xs ! i))
         \<and> (\<forall>j<length xs. \<not> js_lt (amount (xs ! i)) (amount (xs ! j)))
         \<and> (\<forall>j<i. js_lt (amount (xs ! j)) (amount (xs ! i)))"
  using assms
proof (induction xs rule: rev_induct)
  case Nil
  then show ?case by simp
next
  case (snoc x xs)
  have x_pos: "js_lt (Finite 0) (amount x)" using snoc.prems(1) by simp
  show ?case
  proof (cases "xs = []")
    case True
    have "foldl finalize_step (Finite 0, '''') [x] = (amount x, bidder x)"
      using x_pos by (simp add: finalize_step_def js_gt_def)
    then show ?thesis using True by (simp add: js_lt_irrefl)
  next
    case False
    have "\<forall>b\<in>set xs. js_lt (Finite 0) (amount b)" using snoc.prems(1) by simp
    from snoc.IH [OF this False] obtain i where i: "i < length xs"
      and res: "foldl finalize_step (Finite 0, '''') xs = (amount (xs ! i), bidder (xs ! i))"
      and top: "\<forall>j<length xs. \<not> js_lt (amount (xs ! i)) (amount (xs ! j))"
      and first: "\<forall>j<i. js_lt (amount (xs ! j)) (amount (xs ! i))"
      by blast
    let ?m = "amount (xs ! i)"
    have m_ok: "?m \<noteq> NaN"
      using snoc.prems(1) i js_lt_not_NaN [of "Finite 0" ?m] by simp
    show ?thesis
    proof (cases "js_lt ?m (amount x)")
      case True
      have res': "foldl finalize_step (Finite 0, '''') (xs @ [x]) = (amount x, bidder x)"
        using res True by (simp add: finalize_step_def js_gt_def)
      have below: "js_lt (amount (xs ! j)) (amount x)" if "j < length xs" for j
      proof -
        have "amount (xs ! j) \<noteq> NaN"
          using snoc.prems(1) that js_lt_not_NaN [of "Finite 0" "amount (xs ! j)"] by simp
        then have "js_lt (amount (xs ! j)) ?m \<or> amount (xs ! j) = ?m"
          using js_lt_total [OF _ m_ok, of "amount (xs ! j)"] top that by blast
        then show ?thesis using True by (auto intro: js_lt_trans)
      qed
      have no_more: "\<not> js_lt (amount x) (amount ((xs @ [x]) ! j))" if "j < length (xs @ [x])" for j
      proof (cases "j < length xs")
        case True
        then show ?thesis
          using below [OF True] js_lt_trans js_lt_irrefl by (auto simp: nth_append)
      next
        case False
        with that have "j = length xs" by simp
        then show ?thesis by (simp add: js_lt_irrefl)
      qed
      have "length xs < length (xs @ [x])" by simp
      moreover have "foldl finalize_step (Finite 0, '''') (xs @ [x])
          = (amount ((xs @ [x]) ! length xs), bidder ((xs @ [x]) ! length xs))"
        using res' by simp
      moreover have "\<forall>j<length (xs @ [x]).
          \<not> js_lt (amount ((xs @ [x]) ! length xs)) (amount ((xs @ [x]) ! j))"
        using no_more by simp
      moreover have "\<forall>j<length xs.
          js_lt (amount ((xs @ [x]) ! j)) (amount ((xs @ [x]) ! length xs))"
        using below by (simp add: nth_append)
      ultimately show ?thesis by blast
    next
      case False
      have res': "foldl finalize_step (Finite 0, '''') (xs @ [x]) = (?m, bidder (xs ! i))"
        using res False by (simp add: finalize_step_def js_gt_def)
      have "i < length (xs @ [x])" using i by simp
      moreover have "foldl finalize_step (Finite 0, '''') (xs @ [x])
          = (amount ((xs @ [x]) ! i), bidder ((xs @ [x]) ! i))"
        using res' i by (simp add: nth_append)
      moreover have "\<forall>j<length (xs @ [x]).
          \<not> js_lt (amount ((xs @ [x]) ! i)) (amount ((xs @ [x]) ! j))"
      proof (intro allI impI)
        fix j assume "j < length (xs @ [x])"
        then consider "j < length xs" | "j = length xs" by fastforce
        then show "\<not> js_lt (amount ((xs @ [x]) ! i)) (amount ((xs @ [x]) ! j))"
        proof cases
          case 1
          then show ?thesis using top i by (simp add: nth_append)
        next
          case 2
          then show ?thesis using False i by (simp add: nth_append)
        qed
      qed
      moreover have "\<forall>j<i. js_lt (amount ((xs @ [x]) ! j)) (amount ((xs @ [x]) ! i))"
        using first i by (simp add: nth_append)
      ultimately show ?thesis by blast
    qed
  qed
qed

section \<open>Runs of operations\<close>

lemma run_Nil: "run [] c = c"
  by (simp add: run_def)

lemma run_Cons: "run (ev # evs) c = run evs (snd (perform ev c))"
  by (simp add: run_def)

lemma run_invariant:
  assumes "P c" and step: "\<And>ev c. P c \<Longrightarrow> P (snd (perform ev c))"
  shows "P (run evs c)"
  using assms(1)
proof (induction evs arbitrary: c)
  case Nil
  then show ?case by (simp add: run_Nil)
next
  case (Cons ev evs)
  then show ?case by (simp add: run_Cons step)
qed

lemmas op_defs = clickSubmitEncryptedBid_def clickCancel_def submitBid_def settle_def
  handleBidSubmitted_def handleFinalized_def

lemma handleSubmit_amount:
  "handleSubmit inp a = Inr b \<Longrightarrow>
   amount b = bidAmount inp \<and> validateBid (JSNumber (amount b)) (minimumBid a) = Inr True"
  by (auto simp: handleSubmit_def split: if_splits sum.splits)

lemma perform_minimumBid:
  "minimumBid (card_auction (snd (perform ev c))) = minimumBid (card_auction c)"
  by (cases ev) (auto simp: op_defs split: sum.splits prod.splits)

lemma perform_bids_validated:
  assumes "bids_validated c"
  shows "bids_validated (snd (perform ev c))"
proof (cases ev)
  case (SubmitBid inp)
  show ?thesis
  proof (cases "showBidForm c")
    case True
    show ?thesis
    proof (cases "handleSubmit inp (card_auction c)")
      case (Inl e)
      then show ?thesis using assms SubmitBid True by (simp add: submitBid_def)
    next
      case (Inr b)
      then show ?thesis
        using assms SubmitBid True handleSubmit_amount [OF Inr]
        by (auto simp: submitBid_def handleBidSubmitted_def bids_validated_def
                 simp del: validateBid.simps)
    qed
  next
    case False
    then show ?thesis using assms SubmitBid by (simp add: submitBid_def)
  qed
qed (use assms in \<open>auto simp: op_defs bids_validated_def simp del: validateBid.simps
                        split: sum.splits prod.splits\<close>)

lemma run_bids_validated:
  "bids_validated (run evs (mountCard (newAuction u k n d m e t)))"
proof (rule run_invariant [where P = bids_validated])
  show "bids_validated (mountCard (newAuction u k n d m e t))"
    by (simp add: bids_validated_def mountCard_def newAuction_def)
qed (rule perform_bids_validated)

lemma perform_winner_iff: "winner_iff c \<Longrightarrow> winner_iff (snd (perform ev c))"
  by (cases ev) (auto simp: op_defs winner_iff_def split: sum.splits prod.splits)

lemma run_winner_iff: "winner_iff (run evs (mountCard (newAuction u k n d m e t)))"
proof (rule run_invariant [where P = winner_iff])
  show "winner_iff (mountCard (newAuction u k n d m e t))"
    by (simp add: winner_iff_def mountCard_def newAuction_def)
qed (rule perform_winner_iff)

lemma settle_Done:
  "settle now c = (Done, c') \<Longrightarrow>
   status (card_auction c') = Finalized \<and> winner (card_auction c') \<noteq> None
   \<and> status (card_auction c) = Active \<and> isEnded now (card_auction c)"
  by (cases "status (card_auction c)")
     (auto simp: settle_def handleFinalize_def handleFinalized_def isFinalized_def
           split: if_splits sum.splits prod.splits)

lemma settle_finalized:
  "status (card_auction c) = Finalized \<Longrightarrow> settle now c = (NotRendered, c)"
  by (simp add: settle_def isFinalized_def)

lemma perform_finalized:
  assumes "status (card_auction c) = Finalized"
  shows "status (card_auction (snd (perform ev c))) = Finalized
       \<and> winner (card_auction (snd (perform ev c))) = winner (card_auction c)
       \<and> winningBid (card_auction (snd (perform ev c))) = winningBid (card_auction c)"
  using assms
  by (cases ev) (auto simp: op_defs isFinalized_def split: sum.splits prod.splits)

lemma run_finalized:
  assumes "status (card_auction c) = Finalized"
  shows "status (card_auction (run evs c)) = Finalized
       \<and> winner (card_auction (run evs c)) = winner (card_auction c)
       \<and> winningBid (card_auction (run evs c)) = winningBid (card_auction c)"
  using assms
proof (induction evs arbitrary: c)
  case Nil
  then show ?case by (simp add: run_Nil)
next
  case (Cons ev evs)
  have "status (card_auction (snd (perform ev c))) = Finalized"
    using perform_finalized [OF Cons.prems] by simp
  from Cons.IH [OF this] show ?case
    using perform_finalized [OF Cons.prems, of ev] by (simp add: run_Cons)
qed

lemma handleSubmit_ignores_time_and_status:
  "handleSubmit inp (a\<lparr>endTime := e, status := st\<rparr>) = handleSubmit inp a"
  by (simp add: handleSubmit_def)

lemma submitBid_appends:
  assumes "showBidForm c" and "handleSubmit inp (card_auction c) = Inr b"
  shows "fst (submitBid inp c) = Done
       \<and> bids (card_auction (snd (submitBid inp c))) = bids (card_auction c) @ [b]
       \<and> amount b = bidAmount inp"
  using assms handleSubmit_amount [OF assms(2)]
  by (simp add: submitBid_def handleBidSubmitted_def)

lemma perform_keeps_bids:
  "\<exists>bs. bids (card_auction (snd (perform ev c))) = bids (card_auction c) @ bs"
  by (cases ev) (auto simp: op_defs split: sum.splits prod.splits)

lemma handleFinalize_reads_amounts_only:
  assumes "map (\<lambda>b. (amount b, bidder b)) (bids a) = map (\<lambda>b. (amount b, bidder b)) (bids a')"
  shows "handleFinalize a = handleFinalize a'"
proof -
  have step: "finalize_step acc b = (case acc of (mx, w) \<Rightarrow>
      if js_gt (fst (amount b, bidder b)) mx then (amount b, bidder b) else (mx, w))" for acc b
    by (simp add: finalize_step_def split: prod.splits)
  have "foldl finalize_step acc xs
        = foldl (\<lambda>acc p. case acc of (mx, w) \<Rightarrow> if js_gt (fst p) mx then p else (mx, w)) acc
            (map (\<lambda>b. (amount b, bidder b)) xs)" for acc xs
    by (induction xs arbitrary: acc) (simp_all add: step split: prod.splits)
  then have "foldl finalize_step (Finite 0, '''') (bids a)
           = foldl finalize_step (Finite 0, '''') (bids a')"
    using assms by simp
  moreover have "length (bids a) = length (bids a')"
    using assms by (metis length_map)
  ultimately show ?thesis by (simp add: handleFinalize_def)
qed

text \<open>When no handler overlaps another, a settlement that succeeded cannot be repeated:
  the button is gone, and no operation changes the status, the winner or the winning
  bid.\<close>

lemma settle_refused_without_overlap:
  assumes "settle t1 c = (Done, c')"
  shows "winner (card_auction c') \<noteq> None
       \<and> settle t2 (run evs c') = (NotRendered, run evs c')
       \<and> status (card_auction (run evs c')) = Finalized
       \<and> winner (card_auction (run evs c')) = winner (card_auction c')
       \<and> winningBid (card_auction (run evs c')) = winningBid (card_auction c')"
proof -
  have fin: "status (card_auction c') = Finalized" and w: "winner (card_auction c') \<noteq> None"
    using settle_Done [OF assms] by simp_all
  have after: "status (card_auction (run evs c')) = Finalized"
    using run_finalized [OF fin] by simp
  show ?thesis
    using w after settle_finalized [OF after] run_finalized [OF fin] by simp
qed

section \<open>Overlapping handlers keep the invariants\<close>

lemmas async_defs = openBidForm_def cancelBidForm_def startSubmit_def finishSubmit_def
  startFinalize_def finishFinalize_def

lemma record_facts_mountCard:
  "winner_iff (mountCard a) \<longleftrightarrow> (winner a \<noteq> None \<longleftrightarrow> status a = Finalized)"
  "bids_validated (mountCard a) \<longleftrightarrow>
     (\<forall>b\<in>set (bids a). validateBid (JSNumber (amount b)) (minimumBid a) = Inr True)"
  by (simp_all add: winner_iff_def bids_validated_def mountCard_def)

lemma perform_async_invariant:
  assumes "async_invariant s"
  shows "async_invariant (snd (perform_async ev s))"
proof (cases ev)
  case (OpenBidForm now)
  then show ?thesis
    using assms
    by (auto simp: async_invariant_def openBidForm_def clickSubmitEncryptedBid_def
                   winner_iff_def bids_validated_def simp del: validateBid.simps)
next
  case CancelBidForm
  then show ?thesis
    using assms
    by (auto simp: async_invariant_def cancelBidForm_def clickCancel_def
                   winner_iff_def bids_validated_def
             simp del: validateBid.simps split: option.splits)
next
  case (StartSubmit inp)
  then show ?thesis
    using assms
    by (auto simp: async_invariant_def startSubmit_def mountCard_def
                   winner_iff_def bids_validated_def
             simp del: validateBid.simps split: option.splits sum.splits)
next
  case FinishSubmit
  show ?thesis
  proof (cases "pendingSubmit s")
    case None
    then show ?thesis using assms FinishSubmit by (simp add: finishSubmit_def)
  next
    case (Some p)
    obtain inp a where p: "p = (inp, a)" by (cases p)
    have cap: "winner a \<noteq> None \<longleftrightarrow> status a = Finalized"
      "\<forall>b\<in>set (bids a). validateBid (JSNumber (amount b)) (minimumBid a) = Inr True"
      using assms Some p by (simp_all add: async_invariant_def record_facts_mountCard)
    show ?thesis
    proof (cases "handleSubmit inp a")
      case (Inl e)
      then show ?thesis
        using assms FinishSubmit Some p
        by (simp add: finishSubmit_def async_invariant_def)
    next
      case (Inr b)
      then show ?thesis
        using assms FinishSubmit Some p cap handleSubmit_amount [OF Inr]
        by (auto simp: finishSubmit_def async_invariant_def handleBidSubmitted_def
                       winner_iff_def bids_validated_def
                 simp del: validateBid.simps)
    qed
  qed
next
  case (StartFinalize now)
  then show ?thesis
    using assms
    by (auto simp: async_invariant_def startFinalize_def mountCard_def
                   winner_iff_def bids_validated_def
             simp del: validateBid.simps split: option.splits)
next
  case FinishFinalize
  show ?thesis
  proof (cases "pendingFinalize s")
    case None
    then show ?thesis using assms FinishFinalize by (simp add: finishFinalize_def)
  next
    case (Some a)
    have cap: "\<forall>b\<in>set (bids a). validateBid (JSNumber (amount b)) (minimumBid a) = Inr True"
      using assms Some by (simp add: async_invariant_def record_facts_mountCard)
    show ?thesis
      using assms FinishFinalize Some cap
      by (auto simp: finishFinalize_def async_invariant_def handleFinalized_def
                     winner_iff_def bids_validated_def
               simp del: validateBid.simps split: sum.splits prod.splits)
  qed
qed

lemma run_async_invariant:
  "async_invariant s \<Longrightarrow> async_invariant (snd (run_async evs s))"
proof (induction evs arbitrary: s)
  case Nil
  then show ?case by simp
next
  case (Cons ev evs)
  have "async_invariant (snd (perform_async ev s))"
    using Cons.prems by (rule perform_async_invariant)
  from Cons.IH [OF this] show ?case
    by (simp add: case_prod_beta)
qed

lemma async_invariant_initially:
  "async_invariant (mountApp (mountCard (newAuction u k n d m e t)))"
  by (simp add: async_invariant_def mountApp_def mountCard_def newAuction_def
                winner_iff_def bids_validated_def)

section \<open>The claims\<close>

subsection \<open>Key exchange\<close>

text \<open>
  Claim C1 (shared-secret symmetry): for two generated key pairs \<open>a\<close> and \<open>b\<close>,
  \<open>performKeyExchange\<close> on \<open>a\<close>'s private key and \<open>b\<close>'s public key should equal
  \<open>performKeyExchange\<close> on \<open>b\<close>'s private key and \<open>a\<close>'s public key.
  The code does not do this. With the private key of \<open>a\<close> all zeros and that of \<open>b\<close>
  all ones, the first secret is 32 bytes of 130 and the second is 32 bytes of 120.
\<close>

theorem performKeyExchange_not_symmetric:
  "performKeyExchange (privateKey (generateX25519Keypair (\<lambda>i. 0)))
                      (publicKey (generateX25519Keypair (\<lambda>i. 1))) = replicate 32 130
   \<and> performKeyExchange (privateKey (generateX25519Keypair (\<lambda>i. 1)))
                        (publicKey (generateX25519Keypair (\<lambda>i. 0))) = replicate 32 120
   \<and> performKeyExchange (privateKey (generateX25519Keypair (\<lambda>i. 0)))
                        (publicKey (generateX25519Keypair (\<lambda>i. 1)))
       \<noteq> performKeyExchange (privateKey (generateX25519Keypair (\<lambda>i. 1)))
                            (publicKey (generateX25519Keypair (\<lambda>i. 0)))"
  by code_simp

subsection \<open>Sealing and unsealing\<close>

text \<open>
  Claim C2 (seal/unseal round trip): decrypting what \<open>encrypt\<close> produced, under the
  same key and nonce, should return the sealed value. The code does not do this:
  \<open>encrypt\<close> puts the bytes of the value at the front of the 32-byte block and pads
  behind them, and \<open>decrypt\<close> reads the whole block as one big-endian number. For
  every key and nonce, sealing 1000000000 (one SOL in lamports, four bytes) and
  unsealing gives 1000000000 times 256 to the 28th.
\<close>

theorem decrypt_encrypt_one_sol:
  "\<exists>ct. encrypt key (BigIntValue 1000000000) nonce = Inr ct
        \<and> decrypt key ct nonce = 1000000000 * 256 ^ 28"
proof -
  obtain ct where ct: "encrypt key (BigIntValue 1000000000) nonce = Inr ct"
    using encrypt_total by blast
  have "bigIntToBytes 1000000000 = [59, 154, 202, 0]" by code_simp
  then have "decrypt key ct nonce = 1000000000 * 256 ^ 28"
    using decrypt_encrypt_value [OF _ _ ct] by simp
  with ct show ?thesis by blast
qed

text \<open>
  Claim C7 (sealing range), as stated: a value of at least \<open>2 ^ 256\<close> makes the seal
  operation fail instead of producing a ciphertext. It does not: under the all-zero key
  and nonce, \<open>encrypt\<close> of \<open>2 ^ 256\<close> returns the block 1, 0, ..., 0.
\<close>

theorem encrypt_overflow_counterexample:
  "encrypt (replicate 32 0) (BigIntValue (2 ^ 256)) (replicate 16 0) = Inr (1 # replicate 31 0)"
  by code_simp

text \<open>
  Claim C7, amended: \<open>encrypt\<close> has no range check. For every BigInt value, key and
  nonce it returns a ciphertext of exactly 32 bytes; a value of at least \<open>2 ^ 256\<close> is
  sealed like the value made of the 32 leading bytes of its big-endian encoding.
\<close>

theorem encrypt_has_no_range_check:
  "(\<exists>ct. encrypt key (BigIntValue v) nonce = Inr ct \<and> length ct = 32)
   \<and> (2 ^ 256 \<le> v \<longrightarrow>
        encrypt key (BigIntValue v) nonce =
        encrypt key (BigIntValue (v div 256 ^ (length (bigIntToBytes v) - 32))) nonce)"
  using encrypt_total encrypt_truncates by blast

text \<open>Claim C7, witness: \<open>2 ^ 256\<close> has 33 bytes and is sealed like \<open>2 ^ 248\<close>.\<close>

theorem encrypt_has_no_range_check_witness:
  "(2::int) ^ 256 \<le> 2 ^ 256
   \<and> encrypt (replicate 32 7) (BigIntValue (2 ^ 256)) (replicate 16 9) =
     encrypt (replicate 32 7) (BigIntValue (2 ^ 248)) (replicate 16 9)"
proof -
  have len: "length (bigIntToBytes (2 ^ 256)) = 33" by code_simp
  have "(2::int) ^ 256 div 256 ^ (33 - 32) = 2 ^ 248" by simp
  then show ?thesis
    using encrypt_has_no_range_check [of "replicate 32 7" "2 ^ 256" "replicate 16 9"] len
    by simp
qed

subsection \<open>Bid validation\<close>

text \<open>
  Claim C10 (bid amount validation): \<open>validateBid\<close> fails exactly when the amount is
  not a number or is NaN, is not greater than 0, or is less than the minimum bid;
  otherwise it returns true. A positive amount equal to the minimum bid is accepted.
\<close>

theorem validateBid_fails_iff:
  "((\<exists>e. validateBid v m = Inl e) \<longleftrightarrow>
      (case v of JSNotNumber \<Rightarrow> True
       | JSNumber n \<Rightarrow> n = NaN \<or> \<not> js_gt n (Finite 0) \<or> js_lt n m))
   \<and> ((\<nexists>e. validateBid v m = Inl e) \<longrightarrow> validateBid v m = Inr True)
   \<and> (0 < x \<longrightarrow> validateBid (JSNumber (Finite x)) (Finite x) = Inr True)"
proof -
  have "js_le n (Finite 0) \<longleftrightarrow> \<not> js_gt n (Finite 0)" if "n \<noteq> NaN" for n
    using that by (cases n) (simp_all add: js_gt_def)
  then show ?thesis
    by (cases v) (auto simp: isNaN_def js_gt_def)
qed

text \<open>Claim C10, witness: with a minimum of 0.5, the amount 0.5 is accepted and 0.3
  is refused as below the minimum.\<close>

theorem validateBid_fails_iff_witness:
  "(0::real) < 1 / 2 \<and> validateBid (JSNumber (Finite (1 / 2))) (Finite (1 / 2)) = Inr True
   \<and> validateBid (JSNumber (Finite (3 / 10))) (Finite (1 / 2)) = Inl MustBeAtLeastMinimum"
  using validateBid_fails_iff [of "JSNumber (Finite (1 / 2))" "Finite (1 / 2)" "1 / 2"]
  by (simp add: isNaN_def)

subsection \<open>Winner selection\<close>

text \<open>
  Claim C4 (winner selection): on the non-empty bid list of an auction, in insertion
  order with non-decreasing timestamps, \<open>handleFinalize\<close> returns the bidder and the
  amount of one bid of the list; every other bid either has a strictly smaller amount,
  or has the same amount and comes later in the list, with a timestamp that is not
  earlier. The bid list is that of any card reached from a new auction by the
  operations, so every bid in it passed \<open>validateBid\<close>.
\<close>

theorem settlement_selects_first_highest_bid:
  assumes "c = run evs (mountCard (newAuction u k n d m e t))"
    and "bids (card_auction c) \<noteq> []"
    and "sorted_wrt (\<lambda>x y. timestamp x \<le> timestamp y) (bids (card_auction c))"
  shows "\<exists>i<length (bids (card_auction c)).
           handleFinalize (card_auction c)
             = Inr (bidder (bids (card_auction c) ! i), amount (bids (card_auction c) ! i))
         \<and> (\<forall>j<length (bids (card_auction c)). j \<noteq> i \<longrightarrow>
               js_lt (amount (bids (card_auction c) ! j)) (amount (bids (card_auction c) ! i))
             \<or> (amount (bids (card_auction c) ! j) = amount (bids (card_auction c) ! i)
                \<and> i < j
                \<and> timestamp (bids (card_auction c) ! i) \<le> timestamp (bids (card_auction c) ! j)))"
proof -
  let ?xs = "bids (card_auction c)"
  have "bids_validated c"
    unfolding assms(1) by (rule run_bids_validated)
  then have pos: "\<forall>b\<in>set ?xs. js_lt (Finite 0) (amount b)"
    unfolding bids_validated_def by (blast intro: validateBid_positive)
  from foldl_finalize_step [OF pos assms(2)] obtain i where i: "i < length ?xs"
    and res: "foldl finalize_step (Finite 0, '''') ?xs = (amount (?xs ! i), bidder (?xs ! i))"
    and top: "\<forall>j<length ?xs. \<not> js_lt (amount (?xs ! i)) (amount (?xs ! j))"
    and first: "\<forall>j<i. js_lt (amount (?xs ! j)) (amount (?xs ! i))"
    by blast
  have hf: "handleFinalize (card_auction c) = Inr (bidder (?xs ! i), amount (?xs ! i))"
    using assms(2) res by (simp add: handleFinalize_def)
  have others: "js_lt (amount (?xs ! j)) (amount (?xs ! i))
      \<or> (amount (?xs ! j) = amount (?xs ! i) \<and> i < j \<and> timestamp (?xs ! i) \<le> timestamp (?xs ! j))"
    if j: "j < length ?xs" and ne: "j \<noteq> i" for j
  proof (cases "js_lt (amount (?xs ! j)) (amount (?xs ! i))")
    case True
    then show ?thesis by simp
  next
    case False
    have "amount (?xs ! j) \<noteq> NaN" "amount (?xs ! i) \<noteq> NaN"
      using pos i j js_lt_not_NaN [of "Finite 0"] by (metis nth_mem)+
    then have eq: "amount (?xs ! j) = amount (?xs ! i)"
      using js_lt_total [of "amount (?xs ! j)" "amount (?xs ! i)"] False top j by blast
    have "\<not> j < i" using first False by blast
    then have lt: "i < j" using ne by simp
    have "timestamp (?xs ! i) \<le> timestamp (?xs ! j)"
      using sorted_wrt_nth_less [OF assms(3) lt j] .
    then show ?thesis using eq lt by simp
  qed
  show ?thesis using i hf others by blast
qed

text \<open>Claim C4, witness: after the bids of 1 SOL at time 200 and 0.5 SOL at time 400,
  the settlement computation returns the first bidder and the amount 1.\<close>

theorem settlement_selects_first_highest_bid_witness:
  "bids (card_auction two_bids_card) \<noteq> []
   \<and> sorted_wrt (\<lambda>x y. timestamp x \<le> timestamp y) (bids (card_auction two_bids_card))
   \<and> handleFinalize (card_auction two_bids_card) = Inr (''alice'', Finite 1)
   \<and> (\<exists>i<length (bids (card_auction two_bids_card)).
         handleFinalize (card_auction two_bids_card)
           = Inr (bidder (bids (card_auction two_bids_card) ! i),
                  amount (bids (card_auction two_bids_card) ! i)))"
proof -
  have h1: "two_bids_card =
      run [ClickSubmitEncryptedBid 100, SubmitBid alice_submits,
           ClickSubmitEncryptedBid 300, SubmitBid bob_submits]
        (mountCard (newAuction ''auction-1'' ''creator'' ''Painting'' ''An oil painting''
                      (Finite 0.5) 1000 0))"
    by (simp add: two_bids_card_def demo_auction_def)
  have h2: "bids (card_auction two_bids_card) \<noteq> []" by code_simp
  have h3: "sorted_wrt (\<lambda>x y. timestamp x \<le> timestamp y) (bids (card_auction two_bids_card))"
    by code_simp
  have h4: "handleFinalize (card_auction two_bids_card) = Inr (''alice'', Finite 1)"
    by code_simp
  show ?thesis
    using settlement_selects_first_highest_bid [OF h1 h2 h3] h2 h3 h4 by blast
qed

subsection \<open>What the record stores\<close>

text \<open>
  Claim C3 (cleartext confinement): a stored bid should not carry its clear amount,
  and after settlement only the winner and the winning amount should be in clear.
  The code does not do this: \<open>handleSubmit\<close> stores the amount in the bid, the bid
  list is kept unchanged by finalization, and \<open>handleFinalize\<close> reads the amount of
  every bid. After the worked auction is finalized, the record still holds the losing
  bid of 0.5 SOL in clear.
\<close>

theorem losing_bid_amount_stays_in_record:
  "status (card_auction finalized_card) = Finalized
   \<and> winner (card_auction finalized_card) = Some ''alice''
   \<and> winningBid (card_auction finalized_card) = Some (Finite 1)
   \<and> map (\<lambda>b. (bidder b, amount b)) (bids (card_auction finalized_card))
       = [(''alice'', Finite 1), (''bob'', Finite (1 / 2))]"
  by code_simp

subsection \<open>The lifecycle\<close>

text \<open>
  Claim C5 (exactly-once settlement): after a settlement has assigned a winner, a second
  settlement should be refused, and no sequence of operations should replace the
  winner. The code does not do this when a bid submission overlaps the finalization.
  The submission started while the record was still active; when it ends, after the
  finalization has stored the first winner, it writes back the record it captured with
  its bid appended: the status is active and the winner is gone. The finalization
  button is rendered again, and the second finalization stores another winner.
\<close>

theorem second_settlement_replaces_winner:
  "fst first_settlement = [Finished Done, Running, Running, Finished Done]
   \<and> status (card_auction (shown (snd first_settlement))) = Finalized
   \<and> winner (card_auction (shown (snd first_settlement))) = Some ''alice''
   \<and> winningBid (card_auction (shown (snd first_settlement))) = Some (Finite 1)
   \<and> fst second_settlement = [Finished Done, Running, Finished Done]
   \<and> status (card_auction (shown (snd second_settlement))) = Finalized
   \<and> winner (card_auction (shown (snd second_settlement))) = Some ''carol''
   \<and> winningBid (card_auction (shown (snd second_settlement))) = Some (Finite 2)"
  by code_simp

text \<open>
  Claim C6 (late-bid rejection): a submission made at or after the end time, or when
  the auction is not active, should be refused and append nothing. The code does not
  do this: only the button that opens the bid form looks at the end time, and
  \<open>handleSubmit\<close> and \<open>handleBidSubmitted\<close> look at neither the time nor the status.
  With the form opened at time 900, a submission at time 2000 (the auction ended at
  1000) is appended; so is one made after the auction was finalized.
\<close>

theorem late_bid_is_appended:
  "isEnded (submittedAt carol_submits_late)
           (card_auction (run [ClickSubmitEncryptedBid 900] (mountCard demo_auction)))
   \<and> fst (submitBid carol_submits_late (run [ClickSubmitEncryptedBid 900] (mountCard demo_auction)))
       = Done
   \<and> map bidder (bids (card_auction (snd (submitBid carol_submits_late
        (run [ClickSubmitEncryptedBid 900] (mountCard demo_auction)))))) = [''carol'']
   \<and> status (card_auction (run [ClickSubmitEncryptedBid 900, Settle 1500] two_bids_card)) = Finalized
   \<and> fst (submitBid carol_submits_late
        (run [ClickSubmitEncryptedBid 900, Settle 1500] two_bids_card)) = Done
   \<and> map bidder (bids (card_auction (snd (submitBid carol_submits_late
        (run [ClickSubmitEncryptedBid 900, Settle 1500] two_bids_card)))))
       = [''alice'', ''bob'', ''carol'']"
  by code_simp

text \<open>
  Claim C8 (winner if and only if finalized): on every card reached from a new auction
  by the operations, the record has a winner exactly when its status is finalized; a new
  auction is active and has no winner; a successful settlement starts from an active
  record and stores the status and the winner together.
\<close>

theorem winner_iff_finalized:
  "(winner (card_auction (run evs (mountCard (newAuction u k n d m e t)))) \<noteq> None
      \<longleftrightarrow> status (card_auction (run evs (mountCard (newAuction u k n d m e t)))) = Finalized)
   \<and> status (newAuction u k n d m e t) = Active
   \<and> winner (newAuction u k n d m e t) = None
   \<and> (settle now c = (Done, c') \<longrightarrow>
        status (card_auction c) = Active \<and> status (card_auction c') = Finalized
        \<and> winner (card_auction c') \<noteq> None)"
  using run_winner_iff [of evs u k n d m e t] settle_Done [of now c c']
  by (simp add: winner_iff_def newAuction_def)

text \<open>Claim C8, witness: the settlement of the worked auction at time 1500.\<close>

theorem winner_iff_finalized_witness:
  "settle 1500 two_bids_card = (Done, finalized_card)
   \<and> status (card_auction two_bids_card) = Active
   \<and> status (card_auction finalized_card) = Finalized
   \<and> winner (card_auction finalized_card) \<noteq> None"
proof -
  have "fst (settle 1500 two_bids_card) = Done" by code_simp
  then have h: "settle 1500 two_bids_card = (Done, finalized_card)"
    by (simp add: finalized_card_def prod_eq_iff)
  show ?thesis
    using winner_iff_finalized
            [of "[]" "''''" "''''" "''''" "''''" NaN 0 0 1500 two_bids_card finalized_card] h
    by simp
qed

text \<open>
  Claim C9 (settlement without bids): on an auction with no bids, \<open>handleFinalize\<close>
  ends with the alert that no bids were submitted, and \<open>settle\<close> leaves the card
  unchanged; its outcome is that alert when the button is on the page.
\<close>

theorem settle_without_bids:
  assumes "bids (card_auction c) = []"
  shows "handleFinalize (card_auction c) = Inl NoBidsAlert
       \<and> snd (settle now c) = c
       \<and> fst (settle now c) =
           (if isEnded now (card_auction c) \<and> \<not> isFinalized (card_auction c)
            then NoBidsAlert else NotRendered)"
  using assms by (simp add: settle_def handleFinalize_def)

text \<open>Claim C9, witness: the worked auction before any bid, settled at time 1500.\<close>

theorem settle_without_bids_witness:
  "bids (card_auction (mountCard demo_auction)) = []
   \<and> settle 1500 (mountCard demo_auction) = (NoBidsAlert, mountCard demo_auction)"
proof -
  have h: "bids (card_auction (mountCard demo_auction)) = []" by code_simp
  have e: "isEnded 1500 (card_auction (mountCard demo_auction))
           \<and> \<not> isFinalized (card_auction (mountCard demo_auction))" by code_simp
  show ?thesis
    using settle_without_bids [OF h, of 1500] h e by (simp add: prod_eq_iff)
qed

end
